theory Spec2Isabelle
  imports Main "HOL-Library.Word" "HOL-Library.Multiset"
begin

section \<open>The encoder's JNI glue: data model\<close>

text \<open>
  The embedding follows \<^verbatim>\<open>natives/src/main/cpp/encoder_jni.cc\<close>. Machine integers are
  words of the width the JNI types have on an LP64 platform: \<^verbatim>\<open>jlong\<close> is 64 bits,
  \<^verbatim>\<open>jint\<close> and \<^verbatim>\<open>int\<close> are 32 bits, \<^verbatim>\<open>size_t\<close> and pointers are 64 bits. The null
  pointer is the address 0. Signed comparisons of the source are written with \<open>sint\<close>.
\<close>

type_synonym jlong = "64 word"
type_synonym jint = "32 word"
type_synonym size_t = "64 word"
type_synonym addr = "64 word"

text \<open>
  A Java object seen through JNI: a direct \<^verbatim>\<open>ByteBuffer\<close> over a native address with a
  capacity, or any other object. A \<^verbatim>\<open>jobject\<close> that may be null is a \<open>jobject option\<close>.
  \<^verbatim>\<open>GetDirectBufferAddress\<close> answers null and \<^verbatim>\<open>GetDirectBufferCapacity\<close> answers -1
  for an object that is not a direct buffer. \<^verbatim>\<open>NewDirectByteBuffer\<close> answers null for a
  capacity that is negative or above \<^verbatim>\<open>Integer.MAX_VALUE\<close>, which the JVM refuses with an
  exception; for any other capacity it is taken to produce its buffer.
\<close>

datatype jobject = DirectByteBuffer addr jlong | OtherObject

fun GetDirectBufferAddress :: "jobject \<Rightarrow> addr" where
  "GetDirectBufferAddress (DirectByteBuffer a n) = a"
| "GetDirectBufferAddress OtherObject = 0"

fun GetDirectBufferCapacity :: "jobject \<Rightarrow> jlong" where
  "GetDirectBufferCapacity (DirectByteBuffer a n) = n"
| "GetDirectBufferCapacity OtherObject = - 1"

definition NewDirectByteBuffer :: "addr \<Rightarrow> jlong \<Rightarrow> jobject option" where
  "NewDirectByteBuffer a n =
     (if sint n < 0 \<or> 2147483647 < sint n then None else Some (DirectByteBuffer a n))"

text \<open>The enumerations of \<^verbatim>\<open>brotli/encode.h\<close> that the glue names.\<close>

datatype BrotliEncoderOperation =
  BROTLI_OPERATION_PROCESS | BROTLI_OPERATION_FLUSH | BROTLI_OPERATION_FINISH

datatype BrotliEncoderParameter =
  BROTLI_PARAM_MODE | BROTLI_PARAM_QUALITY | BROTLI_PARAM_LGWIN

text \<open>
  The engine itself (\<^verbatim>\<open>brotli/encode.h\<close>) is not part of the repository. It is a
  parameter: a record of its entry points over an abstract engine state \<open>'e\<close>. An entry
  point that writes through a pointer argument returns the written value.
  \<^item> \<open>BrotliEncoderCompressStream s op available_in next_in\<close> returns the status, the
    \<^verbatim>\<open>available_in\<close> left and the new state (the call passes no output buffer);
  \<^item> \<open>BrotliEncoderTakeOutput s\<close> returns the pointer to the chunk, its size and the
    new state;
  \<^item> \<open>BrotliEncoderPrepareDictionary type size data quality\<close> returns the pointer to the
    prepared dictionary, 0 when it fails;
  \<^item> \<open>BROTLI_MAX_QUALITY\<close> is the macro of that name.
  What a step reads of the input block is the engine's own business: it is given the
  pointer and the size, as in the source.
\<close>

record 'e engine =
  BrotliEncoderSetParameter :: "'e \<Rightarrow> BrotliEncoderParameter \<Rightarrow> 32 word \<Rightarrow> 'e"
  BrotliEncoderCompressStream ::
    "'e \<Rightarrow> BrotliEncoderOperation \<Rightarrow> size_t \<Rightarrow> addr \<Rightarrow> bool \<times> size_t \<times> 'e"
  BrotliEncoderHasMoreOutput :: "'e \<Rightarrow> bool"
  BrotliEncoderIsFinished :: "'e \<Rightarrow> bool"
  BrotliEncoderTakeOutput :: "'e \<Rightarrow> addr \<times> size_t \<times> 'e"
  BrotliEncoderAttachPreparedDictionary :: "'e \<Rightarrow> addr \<Rightarrow> bool \<times> 'e"
  BrotliEncoderPrepareDictionary :: "32 word \<Rightarrow> size_t \<Rightarrow> addr \<Rightarrow> int \<Rightarrow> addr"
  BROTLI_MAX_QUALITY :: int

text \<open>
  \<^verbatim>\<open>struct EncoderHandle\<close>. The engine state the handle points to is held by value;
  \<open>None\<close> is the null \<^verbatim>\<open>state\<close> pointer. \<open>dictionary_refs\<close> is the array of 15 global
  references, \<open>None\<close> being a null entry.
\<close>

record 'e EncoderHandle =
  state :: "'e option"
  dictionary_refs :: "jobject option list"
  dictionary_count :: size_t
  input_start :: addr
  input_offset :: size_t
  input_last :: size_t

text \<open>
  The native memory and the JVM's table of global references: the live \<^verbatim>\<open>EncoderHandle\<close>
  objects by address, the live \<^verbatim>\<open>uint8_t[]\<close> blocks by address with their length, and
  the global references not yet deleted.
\<close>

record 'e memory =
  handles :: "addr \<rightharpoonup> 'e EncoderHandle"
  arrays :: "addr \<rightharpoonup> size_t"
  global_refs :: "jobject list"

text \<open>The \<^verbatim>\<open>jlong context[5]\<close> that every entry point copies from and to \<^verbatim>\<open>ctx\<close>.\<close>

record ctx =
  c0 :: jlong
  c1 :: jlong
  c2 :: jlong
  c3 :: jlong
  c4 :: jlong

definition flag :: "bool \<Rightarrow> jlong" where
  "flag b = (if b then 1 else 0)"

section \<open>Push and Pull\<close>

text \<open>The \<^verbatim>\<open>switch (operation)\<close> of \<^verbatim>\<open>nativePush\<close>; \<open>None\<close> is its \<^verbatim>\<open>default: return\<close>.\<close>

definition operation_of :: "32 word \<Rightarrow> BrotliEncoderOperation option" where
  "operation_of operation =
    (if operation = 0 then Some BROTLI_OPERATION_PROCESS
     else if operation = 1 then Some BROTLI_OPERATION_FLUSH
     else if operation = 2 then Some BROTLI_OPERATION_FINISH
     else None)"

text \<open>
  \<^verbatim>\<open>nativePush\<close>: the new memory and the context written back. The source only casts
  the cookie before the switch and dereferences the handle after it; the result is
  \<open>None\<close> where it dereferences a cookie that is not a live handle, or hands a null
  state to the engine (undefined behaviour). \<open>int operation = context[1]\<close> narrows the
  \<^verbatim>\<open>jlong\<close> to 32 bits; \<open>handle->input_last = input_length\<close> converts the \<^verbatim>\<open>jint\<close>
  to \<^verbatim>\<open>size_t\<close>, extending the sign.
\<close>

definition nativePush ::
  "'e engine \<Rightarrow> 'e memory \<Rightarrow> ctx \<Rightarrow> jint \<Rightarrow> ('e memory \<times> ctx) option" where
  "nativePush eng mem ctx input_length =
    (let operation = (ucast (c1 ctx) :: 32 word);
         context = ctx\<lparr>c1 := 0\<rparr>
     in case operation_of operation of
          None \<Rightarrow> Some (mem, context)
        | Some op \<Rightarrow>
           (case handles mem (c0 ctx) of
              None \<Rightarrow> None
            | Some handle \<Rightarrow>
                if input_length \<noteq> 0 \<and> input_offset handle < input_last handle
                then Some (mem, context)
                else
                  (let handle =
                         (if input_length \<noteq> 0
                          then handle\<lparr>input_offset := 0, input_last := scast input_length\<rparr>
                          else handle)
                   in case state handle of
                        None \<Rightarrow> None
                      | Some s \<Rightarrow>
                         (let next_in = input_start handle + input_offset handle;
                              in_size = input_last handle - input_offset handle;
                              (status, in_size, s) =
                                 BrotliEncoderCompressStream eng s op in_size next_in;
                              handle = handle\<lparr>state := Some s,
                                 input_offset := input_last handle - in_size\<rparr>;
                              context =
                                (if status
                                 then context\<lparr>c1 := 1,
                                   c2 := flag (BrotliEncoderHasMoreOutput eng s),
                                   c3 := flag (input_offset handle \<noteq> input_last handle),
                                   c4 := flag (BrotliEncoderIsFinished eng s)\<rparr>
                                 else context)
                          in Some (mem\<lparr>handles := (handles mem)(c0 ctx \<mapsto> handle)\<rparr>,
                                   context)))))"

text \<open>
  \<^verbatim>\<open>nativePull\<close>: the new memory, the context written back and the returned buffer.
\<close>

definition nativePull ::
  "'e engine \<Rightarrow> 'e memory \<Rightarrow> ctx \<Rightarrow> ('e memory \<times> ctx \<times> jobject option) option" where
  "nativePull eng mem ctx =
    (case handles mem (c0 ctx) of
       None \<Rightarrow> None
     | Some handle \<Rightarrow>
        (case state handle of
           None \<Rightarrow> None
         | Some s \<Rightarrow>
            (let (data, data_length, s) = BrotliEncoderTakeOutput eng s;
                 handle = handle\<lparr>state := Some s\<rparr>;
                 context = ctx\<lparr>c1 := 1,
                   c2 := flag (BrotliEncoderHasMoreOutput eng s),
                   c3 := flag (input_offset handle \<noteq> input_last handle),
                   c4 := flag (BrotliEncoderIsFinished eng s)\<rparr>
             in Some (mem\<lparr>handles := (handles mem)(c0 ctx \<mapsto> handle)\<rparr>, context,
                      NewDirectByteBuffer data data_length))))"

section \<open>Create and Destroy\<close>

text \<open>
  What the allocators answer during one \<^verbatim>\<open>nativeCreate\<close>: the address returned by
  \<^verbatim>\<open>new (std::nothrow) EncoderHandle()\<close>, the address returned by
  \<^verbatim>\<open>new (std::nothrow) uint8_t[input_size]\<close> (0 when the allocation fails), and the
  engine state made by \<^verbatim>\<open>BrotliEncoderCreateInstance\<close> (\<open>None\<close> when it fails).
\<close>

record 'e allocs =
  new_EncoderHandle :: addr
  new_uint8_array :: addr
  BrotliEncoderCreateInstance :: "'e option"

text \<open>
  \<^verbatim>\<open>nativeCreate\<close>, block by block, with the flag \<open>ok\<close> of the source: the memory after
  the call, the context written back (only \<open>context[0]\<close> is) and the returned buffer.
  \<open>int quality = context[2]\<close> and its two siblings narrow to 32 bits.
\<close>

definition nativeCreate ::
  "'e engine \<Rightarrow> 'e allocs \<Rightarrow> 'e memory \<Rightarrow> ctx \<Rightarrow> 'e memory \<times> ctx \<times> jobject option" where
  "nativeCreate eng al mem ctx =
    (let input_size = c1 ctx;
         cookie = (0 :: jlong);
         handle = new_EncoderHandle al;
         ok = (handle \<noteq> 0);
         h = \<lparr>state = None, dictionary_refs = replicate 15 None, dictionary_count = 0,
              input_start = 0, input_offset = 0, input_last = 0\<rparr>;
         mem = (if ok then mem\<lparr>handles := (handles mem)(handle \<mapsto> h)\<rparr> else mem);
         (ok, h, mem) =
           (if ok
            then
              (let h = h\<lparr>dictionary_refs :=
                          fold (\<lambda>i refs. refs[i := None]) [0..<15] (dictionary_refs h),
                        dictionary_count := 0, input_offset := 0, input_last := 0,
                        input_start := 0\<rparr>
               in if input_size = 0 then (False, h, mem)
                  else
                    (let a = new_uint8_array al
                     in (a \<noteq> 0, h\<lparr>input_start := a\<rparr>,
                         if a \<noteq> 0 then mem\<lparr>arrays := (arrays mem)(a \<mapsto> input_size)\<rparr>
                         else mem)))
            else (ok, h, mem));
         (ok, h) =
           (if ok
            then (BrotliEncoderCreateInstance al \<noteq> None,
                  h\<lparr>state := BrotliEncoderCreateInstance al\<rparr>)
            else (ok, h));
         h =
           (if ok
            then
              (case state h of
                 None \<Rightarrow> h
               | Some s \<Rightarrow>
                  (let quality = (ucast (c2 ctx) :: 32 word);
                       s = (if 0 \<le> sint quality
                            then BrotliEncoderSetParameter eng s BROTLI_PARAM_QUALITY quality
                            else s);
                       lgwin = (ucast (c3 ctx) :: 32 word);
                       s = (if 0 \<le> sint lgwin
                            then BrotliEncoderSetParameter eng s BROTLI_PARAM_LGWIN lgwin
                            else s);
                       mode = (ucast (c4 ctx) :: 32 word);
                       s = (if 0 \<le> sint mode
                            then BrotliEncoderSetParameter eng s BROTLI_PARAM_MODE mode
                            else s)
                   in h\<lparr>state := Some s\<rparr>))
            else h);
         (cookie, mem) =
           (if ok then (handle, mem\<lparr>handles := (handles mem)(handle \<mapsto> h)\<rparr>)
            else if handle \<noteq> 0
            then
              (let mem = (if input_start h \<noteq> 0
                          then mem\<lparr>arrays := (arrays mem)(input_start h := None)\<rparr>
                          else mem)
               in (cookie, mem\<lparr>handles := (handles mem)(handle := None)\<rparr>))
            else (cookie, mem))
     in (mem, ctx\<lparr>c0 := cookie\<rparr>,
         if \<not> ok then None else NewDirectByteBuffer (input_start h) input_size))"

text \<open>
  \<^verbatim>\<open>nativeDestroy\<close>: the engine state goes with the handle; the loop deletes, in order,
  the global references in the slots \<open>0 .. dictionary_count - 1\<close> (deleting a null
  reference does nothing, deleting a reference takes one entry for that object out of
  the table); then the input block and the handle are freed. \<open>None\<close> where the cookie
  is not a live handle or the loop would read past the slots.
\<close>

fun DeleteGlobalRef :: "jobject option \<Rightarrow> jobject list \<Rightarrow> jobject list" where
  "DeleteGlobalRef None refs = refs"
| "DeleteGlobalRef (Some r) refs = remove1 r refs"

definition nativeDestroy :: "'e engine \<Rightarrow> 'e memory \<Rightarrow> ctx \<Rightarrow> 'e memory option" where
  "nativeDestroy eng mem ctx =
    (case handles mem (c0 ctx) of
       None \<Rightarrow> None
     | Some handle \<Rightarrow>
        if length (dictionary_refs handle) < unat (dictionary_count handle) then None
        else
          Some (mem\<lparr>
            global_refs :=
              fold DeleteGlobalRef
                (take (unat (dictionary_count handle)) (dictionary_refs handle))
                (global_refs mem),
            arrays := (arrays mem)(input_start handle := None),
            handles := (handles mem)(c0 ctx := None)\<rparr>))"

section \<open>Dictionaries\<close>

text \<open>
  \<^verbatim>\<open>nativeAttachDictionary\<close>. \<open>NewGlobalRef_ok\<close> says whether the JVM grants the global
  reference; the reference granted denotes the object \<open>dictionary\<close> itself. The chain of
  \<open>if (ok)\<close> blocks of the source is written as the nested conditional it amounts to.
\<close>

definition nativeAttachDictionary ::
  "'e engine \<Rightarrow> bool \<Rightarrow> 'e memory \<Rightarrow> ctx \<Rightarrow> jobject option \<Rightarrow> ('e memory \<times> bool) option"
  where
  "nativeAttachDictionary eng NewGlobalRef_ok mem ctx dictionary =
    (case dictionary of
       None \<Rightarrow> Some (mem, False)
     | Some d \<Rightarrow>
        (case handles mem (c0 ctx) of
           None \<Rightarrow> None
         | Some handle \<Rightarrow>
            if 15 \<le> dictionary_count handle then Some (mem, False)
            else if \<not> NewGlobalRef_ok then Some (mem, False)
            else
              (let mem = mem\<lparr>global_refs := global_refs mem @ [d]\<rparr>;
                   handle = handle\<lparr>
                     dictionary_refs :=
                       (dictionary_refs handle)[unat (dictionary_count handle) := Some d],
                     dictionary_count := dictionary_count handle + 1\<rparr>;
                   address = GetDirectBufferAddress d
               in if address = 0
                  then Some (mem\<lparr>handles := (handles mem)(c0 ctx \<mapsto> handle)\<rparr>, False)
                  else
                    (case state handle of
                       None \<Rightarrow> None
                     | Some s \<Rightarrow>
                        (let (ok, s) = BrotliEncoderAttachPreparedDictionary eng s address
                         in Some (mem\<lparr>handles :=
                                    (handles mem)(c0 ctx \<mapsto> handle\<lparr>state := Some s\<rparr>)\<rparr>,
                                  ok))))))"

text \<open>
  \<^verbatim>\<open>nativePrepareDictionary\<close>. The comparison of \<open>capacity\<close> is the signed one of
  \<^verbatim>\<open>jlong\<close>; \<open>static_cast<BrotliSharedDictionaryType>(type)\<close> keeps the low 32 bits.
\<close>

definition nativePrepareDictionary ::
  "'e engine \<Rightarrow> jobject option \<Rightarrow> jlong \<Rightarrow> jobject option" where
  "nativePrepareDictionary eng dictionary type =
    (case dictionary of
       None \<Rightarrow> None
     | Some d \<Rightarrow>
        (let address = GetDirectBufferAddress d
         in if address = 0 then None
            else
              (let capacity = GetDirectBufferCapacity d
               in if sint capacity \<le> 0 \<or> 2 ^ 30 \<le> sint capacity then None
                  else
                    (let dictionary_type = (ucast type :: 32 word);
                         size = (capacity :: size_t);
                         prepared_dictionary =
                           BrotliEncoderPrepareDictionary eng dictionary_type size address
                             (BROTLI_MAX_QUALITY eng)
                     in if prepared_dictionary = 0 then None
                        else NewDirectByteBuffer prepared_dictionary 4))))"

section \<open>Sequences of calls on one handle\<close>

text \<open>
  A caller's calls on the handle with cookie \<open>k\<close>: Push with the operation tag it writes
  to \<open>context[1]\<close> and the input length, Pull, and AttachDictionary with the dictionary and
  whether the JVM grants the global reference. \<open>step\<close> makes one call and returns the
  memory with the call's success flag; \<open>run\<close> makes the calls in order.
\<close>

datatype call = Push jlong jint | Pull | Attach "jobject option" bool

definition call_ctx :: "addr \<Rightarrow> jlong \<Rightarrow> ctx" where
  "call_ctx k operation = \<lparr> c0 = k, c1 = operation, c2 = 0, c3 = 0, c4 = 0 \<rparr>"

fun step :: "'e engine \<Rightarrow> addr \<Rightarrow> call \<Rightarrow> 'e memory \<Rightarrow> ('e memory \<times> bool) option" where
  "step eng k (Push operation n) mem =
     map_option (\<lambda>r. (fst r, c1 (snd r) = 1)) (nativePush eng mem (call_ctx k operation) n)"
| "step eng k Pull mem =
     map_option (\<lambda>r. (fst r, c1 (fst (snd r)) = 1)) (nativePull eng mem (call_ctx k 0))"
| "step eng k (Attach d granted) mem =
     nativeAttachDictionary eng granted mem (call_ctx k 0) d"

fun run ::
  "'e engine \<Rightarrow> addr \<Rightarrow> call list \<Rightarrow> 'e memory \<Rightarrow> ('e memory \<times> bool list) option" where
  "run eng k [] mem = Some (mem, [])"
| "run eng k (c # cs) mem =
     (case step eng k c mem of
        None \<Rightarrow> None
      | Some (mem', r) \<Rightarrow>
         (case run eng k cs mem' of
            None \<Rightarrow> None
          | Some (mem'', rs) \<Rightarrow> Some (mem'', r # rs)))"

text \<open>
  The engine's contract on \<^verbatim>\<open>available_in\<close>: a compression step leaves at most the input
  it was offered.
\<close>

definition engine_consumes :: "'e engine \<Rightarrow> bool" where
  "engine_consumes eng \<longleftrightarrow>
     (\<forall>s op n p. fst (snd (BrotliEncoderCompressStream eng s op n p)) \<le> n)"

text \<open>
  The window invariant of the handle with cookie \<open>k\<close> for a capacity \<open>C\<close>:
  \<open>0 \<le> input_offset \<le> input_last \<le> C\<close> (the offsets are unsigned).
\<close>

definition window_ok_at :: "addr \<Rightarrow> size_t \<Rightarrow> 'e memory \<Rightarrow> bool" where
  "window_ok_at k C mem =
     (case handles mem k of
        None \<Rightarrow> False
      | Some h \<Rightarrow> 0 \<le> input_offset h \<and> input_offset h \<le> input_last h \<and> input_last h \<le> C)"

text \<open>A call that, if it is a Push, passes a length between 0 and \<open>C\<close>.\<close>

fun push_within :: "size_t \<Rightarrow> call \<Rightarrow> bool" where
  "push_within C (Push operation n) = (0 \<le> sint n \<and> scast n \<le> C)"
| "push_within C c = True"

text \<open>An engine that accepts every prepared dictionary.\<close>

definition engine_accepts :: "'e engine \<Rightarrow> bool" where
  "engine_accepts eng \<longleftrightarrow> (\<forall>s a. fst (BrotliEncoderAttachPreparedDictionary eng s a))"

text \<open>
  The references a handle holds: those in the slots \<open>0 .. dictionary_count - 1\<close>, the
  ones the loop of Destroy deletes.
\<close>

fun refs_of :: "jobject option list \<Rightarrow> jobject list" where
  "refs_of [] = []"
| "refs_of (None # rs) = refs_of rs"
| "refs_of (Some r # rs) = r # refs_of rs"

definition held_refs :: "'e EncoderHandle \<Rightarrow> jobject list" where
  "held_refs h = refs_of (take (unat (dictionary_count h)) (dictionary_refs h))"

text \<open>
  The table of global references is accounted for by the handle with cookie \<open>k\<close> over a
  stock \<open>G\<close> of references that are not the handle's: the handle is valid with its 15
  slots and at most 15 dictionaries, and the table holds the stock and the references
  the handle holds, no more and no less. \<open>holding d k\<close>: the handle holds a reference
  to the object \<open>d\<close>.
\<close>

definition accounted :: "jobject multiset \<Rightarrow> addr \<Rightarrow> 'e memory \<Rightarrow> bool" where
  "accounted G k mem =
     (case handles mem k of
        None \<Rightarrow> False
      | Some h \<Rightarrow>
          state h \<noteq> None \<and> length (dictionary_refs h) = 15 \<and> dictionary_count h \<le> 15
          \<and> mset (global_refs mem) = G + mset (held_refs h))"

definition holding :: "jobject \<Rightarrow> addr \<Rightarrow> 'e memory \<Rightarrow> bool" where
  "holding d k mem =
     (case handles mem k of None \<Rightarrow> False | Some h \<Rightarrow> d \<in> set (held_refs h))"

section \<open>A small engine to run the glue on\<close>

text \<open>
  An engine over a counter of buffered bytes: a compression step takes at most two bytes of
  input, a Flush step buffers one byte more than it took, a pull hands out everything
  buffered, the stream is finished once a Finish step found no input left. It accepts every dictionary, and prepares one only at quality 11.
\<close>

record toy_state =
  buffered :: nat
  finished :: bool

definition toy_engine :: "toy_state engine" where
  "toy_engine = \<lparr>
     BrotliEncoderSetParameter = (\<lambda>s p v. s),
     BrotliEncoderCompressStream = (\<lambda>s op n p.
        (True, (if n \<le> 2 then 0 else n - 2),
         \<lparr>buffered = buffered s + (if n \<le> 2 then unat n else 2)
            + (if op = BROTLI_OPERATION_FLUSH then 1 else 0),
          finished = (op = BROTLI_OPERATION_FINISH \<and> n \<le> 2)\<rparr>)),
     BrotliEncoderHasMoreOutput = (\<lambda>s. 0 < buffered s),
     BrotliEncoderIsFinished = (\<lambda>s. finished s \<and> buffered s = 0),
     BrotliEncoderTakeOutput = (\<lambda>s. (4096, of_nat (buffered s), s\<lparr>buffered := 0\<rparr>)),
     BrotliEncoderAttachPreparedDictionary = (\<lambda>s a. (True, s)),
     BrotliEncoderPrepareDictionary = (\<lambda>t n a q. if q = 11 then 8192 else 0),
     BROTLI_MAX_QUALITY = 11 \<rparr>"

definition toy_allocs :: "toy_state allocs" where
  "toy_allocs = \<lparr> new_EncoderHandle = 64, new_uint8_array = 256,
     BrotliEncoderCreateInstance = Some \<lparr>buffered = 0, finished = False\<rparr> \<rparr>"

definition empty_memory :: "toy_state memory" where
  "empty_memory = \<lparr> handles = Map.empty, arrays = Map.empty, global_refs = [] \<rparr>"

definition create_ctx :: "jlong \<Rightarrow> ctx" where
  "create_ctx capacity = \<lparr> c0 = 0, c1 = capacity, c2 = 5, c3 = 22, c4 = 0 \<rparr>"

text \<open>
  The handle and the memory that Create with capacity 4 leaves from the empty memory,
  and those after a first Push of four bytes, of which the engine took two.
\<close>

definition toy_fresh :: "toy_state EncoderHandle" where
  "toy_fresh = \<lparr> state = Some \<lparr>buffered = 0, finished = False\<rparr>,
     dictionary_refs = replicate 15 None, dictionary_count = 0,
     input_start = 256, input_offset = 0, input_last = 0 \<rparr>"

definition toy_created :: "toy_state memory" where
  "toy_created = \<lparr> handles = [64 \<mapsto> toy_fresh], arrays = [256 \<mapsto> 4], global_refs = [] \<rparr>"

definition toy_handle :: "toy_state EncoderHandle" where
  "toy_handle = \<lparr> state = Some \<lparr>buffered = 2, finished = False\<rparr>,
     dictionary_refs = replicate 15 None, dictionary_count = 0,
     input_start = 256, input_offset = 2, input_last = 4 \<rparr>"

definition toy_memory :: "toy_state memory" where
  "toy_memory = \<lparr> handles = [64 \<mapsto> toy_handle], arrays = [256 \<mapsto> 4], global_refs = [] \<rparr>"

definition toy_ctx :: "jlong \<Rightarrow> ctx" where
  "toy_ctx operation = \<lparr> c0 = 64, c1 = operation, c2 = 0, c3 = 0, c4 = 0 \<rparr>"

text \<open>
  A prepared dictionary, allocators whose engine constructor fails, the memory after a
  first attach of an object that is no direct buffer to the new handle, and the engine
  changed to reject every dictionary.
\<close>

definition toy_dictionary :: jobject where
  "toy_dictionary = DirectByteBuffer 8192 4"


definition toy_attached :: "toy_state memory" where
  "toy_attached = \<lparr> handles = [64 \<mapsto> toy_fresh\<lparr>
       dictionary_refs := (replicate 15 None)[0 := Some OtherObject],
       dictionary_count := 1\<rparr>],
     arrays = [256 \<mapsto> 4], global_refs = [OtherObject] \<rparr>"

definition rejecting_engine :: "toy_state engine" where
  "rejecting_engine =
     toy_engine\<lparr>BrotliEncoderAttachPreparedDictionary := (\<lambda>s a. (False, s))\<rparr>"

section \<open>Facts shared by the proofs\<close>

lemma replicate_update_same: "(replicate m x)[n := x] = replicate m x"
  by (cases "n < m") (simp_all add: list_eq_iff_nth_eq nth_list_update)

lemma clear_refs:
  "fold (\<lambda>i refs. refs[i := None]) [0..<n] (replicate m None) = replicate m None"
  by (induction n) (simp_all add: replicate_update_same)

lemma toy_create:
  "nativeCreate toy_engine toy_allocs empty_memory (create_ctx 4) =
     (toy_created, toy_ctx 4\<lparr>c2 := 5, c3 := 22\<rparr>, Some (DirectByteBuffer 256 4))"
  by (simp add: nativeCreate_def Let_def clear_refs NewDirectByteBuffer_def toy_engine_def
      toy_allocs_def empty_memory_def create_ctx_def toy_created_def toy_fresh_def toy_ctx_def)

lemma toy_first_push:
  "run toy_engine 64 [Push 0 4] toy_created = Some (toy_memory, [True])"
  by (simp add: nativePush_def operation_of_def call_ctx_def Let_def toy_engine_def
      toy_created_def toy_fresh_def toy_memory_def toy_handle_def flag_def)

lemma toy_engine_consumes: "engine_consumes toy_engine"
proof -
  have "n - 2 \<le> n" if "\<not> n \<le> 2" for n :: "64 word"
    using that by (intro word_sub_le) simp
  then show ?thesis by (simp add: engine_consumes_def toy_engine_def)
qed

lemma toy_engine_accepts: "engine_accepts toy_engine"
  by (simp add: engine_accepts_def toy_engine_def)

lemma nativeCreate_success:
  assumes "nativeCreate eng al mem0 cctx = (mem, cctx', Some view)"
  shows "\<exists>h s. handles mem (c0 cctx') = Some h \<and> state h = Some s
     \<and> dictionary_count h = 0 \<and> dictionary_refs h = replicate 15 None
     \<and> input_offset h = 0 \<and> input_last h = 0
     \<and> input_start h = new_uint8_array al
     \<and> arrays mem (new_uint8_array al) = Some (c1 cctx)
     \<and> c0 cctx' = new_EncoderHandle al
     \<and> view = DirectByteBuffer (new_uint8_array al) (c1 cctx)
     \<and> global_refs mem = global_refs mem0"
  using assms
  by (auto simp add: nativeCreate_def Let_def clear_refs NewDirectByteBuffer_def
      split: if_splits option.splits)

lemma window_advance:
  fixes rest :: "64 word"
  assumes "rest \<le> limit - offset" and "offset \<le> limit"
  shows "limit - rest \<le> limit"
proof -
  have "limit - offset \<le> limit" using assms(2) by (rule word_sub_le)
  then have "rest \<le> limit" using assms(1) by simp
  then show ?thesis by (rule word_sub_le)
qed

lemma count_succ:
  fixes n :: "64 word"
  assumes "\<not> 15 \<le> n"
  shows "n + 1 \<le> 15" and "unat (n + 1) = Suc (unat n)"
proof -
  have lt: "n < 15" using assms by simp
  then show "n + 1 \<le> 15" by (rule inc_le)
  have u: "unat n < 15" using lt by (simp add: word_less_nat_alt)
  have "unat n + unat (1 :: 64 word) < 2 ^ LENGTH(64)" using u by simp
  then have "unat (n + 1) = unat n + unat (1 :: 64 word)" by (simp only: unat_add_lem)
  then show "unat (n + 1) = Suc (unat n)" by simp
qed

text \<open>What each call keeps of a valid handle.\<close>

lemma push_window:
  assumes ec: "engine_consumes eng"
    and h: "handles mem k = Some h" and s: "state h = Some s"
    and w: "input_offset h \<le> input_last h"
  shows "\<exists>mem' c' h' s'. nativePush eng mem (call_ctx k t) n = Some (mem', c')
     \<and> handles mem' k = Some h' \<and> state h' = Some s'
     \<and> input_start h' = input_start h \<and> arrays mem' = arrays mem
     \<and> input_offset h' \<le> input_last h'
     \<and> (input_last h' = input_last h \<or> input_last h' = scast n)"
proof (cases "operation_of (ucast t)")
  case None
  then show ?thesis using h s w by (simp add: nativePush_def call_ctx_def)
next
  case (Some op)
  show ?thesis
  proof (cases "n \<noteq> 0 \<and> input_offset h < input_last h")
    case True
    then show ?thesis using Some h s w by (simp add: nativePush_def call_ctx_def)
  next
    case False
    define off where "off = (if n \<noteq> 0 then 0 else input_offset h)"
    define lim where "lim = (if n \<noteq> 0 then scast n else input_last h)"
    obtain st rest s' where r:
      "BrotliEncoderCompressStream eng s op (lim - off) (input_start h + off) = (st, rest, s')"
      by (metis prod_cases3)
    have rest: "rest \<le> lim - off"
      using ec r unfolding engine_consumes_def by (metis fst_conv snd_conv)
    have ol: "off \<le> lim" using w by (simp add: off_def lim_def)
    have adv: "lim - rest \<le> lim" using rest ol by (rule window_advance)
    show ?thesis
      using Some False h s r adv
      by (cases h) (auto simp add: nativePush_def call_ctx_def Let_def off_def lim_def)
  qed
qed

lemma push_count:
  assumes h: "handles mem k = Some h" and s: "state h = Some s"
  shows "\<exists>mem' c' h' s'. nativePush eng mem (call_ctx k t) n = Some (mem', c')
     \<and> handles mem' k = Some h' \<and> state h' = Some s'
     \<and> dictionary_count h' = dictionary_count h"
proof (cases "operation_of (ucast t)")
  case None
  then show ?thesis using h s by (simp add: nativePush_def call_ctx_def)
next
  case (Some op)
  show ?thesis
  proof (cases "n \<noteq> 0 \<and> input_offset h < input_last h")
    case True
    then show ?thesis using Some h s by (simp add: nativePush_def call_ctx_def)
  next
    case False
    then show ?thesis
      using Some h s
      by (simp add: nativePush_def call_ctx_def Let_def split_beta)
  qed
qed

lemma pull_keeps:
  assumes h: "handles mem k = Some h" and s: "state h = Some s"
  shows "\<exists>mem' c' v h' s'. nativePull eng mem (call_ctx k t) = Some (mem', c', v)
     \<and> handles mem' k = Some h' \<and> state h' = Some s'
     \<and> input_start h' = input_start h \<and> arrays mem' = arrays mem
     \<and> input_offset h' = input_offset h \<and> input_last h' = input_last h
     \<and> dictionary_count h' = dictionary_count h"
  using assms
  by (simp add: nativePull_def call_ctx_def Let_def split_beta)

lemma attach_keeps:
  assumes h: "handles mem k = Some h" and s: "state h = Some s"
    and c: "dictionary_count h \<le> 15"
  shows "\<exists>mem' r h' s'. nativeAttachDictionary eng granted mem (call_ctx k t) d = Some (mem', r)
     \<and> handles mem' k = Some h' \<and> state h' = Some s'
     \<and> input_start h' = input_start h \<and> arrays mem' = arrays mem
     \<and> input_offset h' = input_offset h \<and> input_last h' = input_last h
     \<and> dictionary_count h' \<le> 15"
proof (cases d)
  case None
  then show ?thesis using h s c by (auto simp add: nativeAttachDictionary_def)
next
  case (Some obj)
  show ?thesis
  proof (cases "15 \<le> dictionary_count h \<or> \<not> granted")
    case True
    then show ?thesis
      using Some h s c by (auto simp add: nativeAttachDictionary_def call_ctx_def)
  next
    case False
    then have "dictionary_count h + 1 \<le> 15" by (simp add: count_succ)
    then show ?thesis
      using False Some h s
      by (auto simp add: nativeAttachDictionary_def call_ctx_def Let_def split_beta)
  qed
qed

lemma attach_full:
  assumes "handles mem (c0 actx) = Some h" and "15 \<le> dictionary_count h"
  shows "nativeAttachDictionary eng granted mem actx d = Some (mem, False)"
  using assms by (cases d) (simp_all add: nativeAttachDictionary_def)

lemma attach_success:
  assumes h: "handles mem k = Some h" and s: "state h = Some s"
    and c: "\<not> 15 \<le> dictionary_count h"
    and a: "GetDirectBufferAddress d \<noteq> 0"
    and e: "engine_accepts eng"
  shows "\<exists>mem' h' s'.
       nativeAttachDictionary eng True mem (call_ctx k t) (Some d) = Some (mem', True)
     \<and> handles mem' k = Some h' \<and> state h' = Some s'
     \<and> dictionary_count h' = dictionary_count h + 1"
proof -
  obtain ok s' where r:
    "BrotliEncoderAttachPreparedDictionary eng s (GetDirectBufferAddress d) = (ok, s')"
    by (cases "BrotliEncoderAttachPreparedDictionary eng s (GetDirectBufferAddress d)")
  have "ok" using e r unfolding engine_accepts_def by (metis fst_conv)
  then show ?thesis
    using h s c a r
    by (simp add: nativeAttachDictionary_def call_ctx_def)
qed

text \<open>One call and a sequence of calls keep an invariant of the memory.\<close>

lemma step_window:
  assumes "engine_consumes eng"
    and "handles mem k = Some h" and "state h = Some s"
    and "arrays mem (input_start h) = Some C"
    and "input_offset h \<le> input_last h" and "input_last h \<le> C"
    and "push_within C c"
  shows "\<exists>mem' r h' s'. step eng k c mem = Some (mem', r)
     \<and> handles mem' k = Some h' \<and> state h' = Some s'
     \<and> arrays mem' (input_start h') = Some C
     \<and> input_offset h' \<le> input_last h' \<and> input_last h' \<le> C"
proof (cases c)
  case (Push t n)
  then have "scast n \<le> C" using assms(7) by simp
  with push_window [OF assms(1,2,3,5), of t n] assms(4,6) Push
  show ?thesis by auto
next
  case Pull
  from pull_keeps [OF assms(2,3), of eng 0] assms(4,5,6) Pull
  show ?thesis by auto
next
  case (Attach d granted)
  have "\<exists>mem' r h' s'.
       nativeAttachDictionary eng granted mem (call_ctx k 0) d = Some (mem', r)
     \<and> handles mem' k = Some h' \<and> state h' = Some s'
     \<and> input_start h' = input_start h \<and> arrays mem' = arrays mem
     \<and> input_offset h' = input_offset h \<and> input_last h' = input_last h"
    using assms(2,3)
    by (cases d)
       (auto simp add: nativeAttachDictionary_def call_ctx_def Let_def split_beta)
  with assms(4,5,6) Attach show ?thesis by auto
qed

lemma step_count:
  assumes "handles mem k = Some h" and "state h = Some s" and "dictionary_count h \<le> 15"
  shows "\<exists>mem' r h' s'. step eng k c mem = Some (mem', r)
     \<and> handles mem' k = Some h' \<and> state h' = Some s' \<and> dictionary_count h' \<le> 15"
proof (cases c)
  case (Push t n)
  from push_count [OF assms(1,2), of eng t n] assms(3) Push show ?thesis by auto
next
  case Pull
  from pull_keeps [OF assms(1,2), of eng 0] assms(3) Pull show ?thesis by auto
next
  case (Attach d granted)
  from attach_keeps [OF assms, of eng granted 0 d] Attach show ?thesis by auto
qed

lemma run_invariant:
  assumes step: "\<And>mem c. I mem \<Longrightarrow> P c \<Longrightarrow>
      \<exists>mem' r. step eng k c mem = Some (mem', r) \<and> I mem'"
    and "I mem" and "\<forall>c \<in> set calls. P c"
  shows "\<exists>mem' flags. run eng k calls mem = Some (mem', flags) \<and> I mem'"
  using assms(2-)
proof (induction calls arbitrary: mem)
  case Nil
  then show ?case by simp
next
  case (Cons c calls)
  from step [of mem c] Cons.prems
  obtain mem1 r where st: "step eng k c mem = Some (mem1, r)" and i1: "I mem1"
    by auto
  from Cons.IH [OF i1] Cons.prems(2)
  obtain mem' flags where "run eng k calls mem1 = Some (mem', flags)" "I mem'"
    by auto
  with st show ?case by simp
qed

lemma step_order:
  assumes "engine_consumes eng"
    and "handles mem k = Some h" and "state h = Some s"
    and "input_offset h \<le> input_last h"
  shows "\<exists>mem' r h' s'. step eng k c mem = Some (mem', r)
     \<and> handles mem' k = Some h' \<and> state h' = Some s'
     \<and> input_offset h' \<le> input_last h'"
proof (cases c)
  case (Push t n)
  with push_window [OF assms, of t n] show ?thesis by auto
next
  case Pull
  from pull_keeps [OF assms(2,3), of eng 0] assms(4) Pull
  show ?thesis by auto
next
  case (Attach d granted)
  have "\<exists>mem' r h' s'.
       nativeAttachDictionary eng granted mem (call_ctx k 0) d = Some (mem', r)
     \<and> handles mem' k = Some h' \<and> state h' = Some s'
     \<and> input_offset h' = input_offset h \<and> input_last h' = input_last h"
    using assms(2,3)
    by (cases d)
       (auto simp add: nativeAttachDictionary_def call_ctx_def Let_def split_beta)
  with assms(4) Attach show ?thesis by auto
qed

text \<open>
  From Create on, whatever is called with whatever lengths, the window stays in order
  when the engine keeps its contract.
\<close>

lemma run_order:
  assumes "engine_consumes eng"
    and "nativeCreate eng al mem0 cctx = (mem1, cctx', Some view)"
    and "run eng (c0 cctx') calls mem1 = Some (mem, flags)"
    and "handles mem (c0 cctx') = Some h"
  shows "input_offset h \<le> input_last h"
proof -
  define I where "I = (\<lambda>m :: 'a memory. \<exists>h s. handles m (c0 cctx') = Some h
     \<and> state h = Some s \<and> input_offset h \<le> input_last h)"
  from nativeCreate_success [OF assms(2)] have "I mem1"
    by (auto simp add: I_def)
  moreover have "\<exists>m' r. step eng (c0 cctx') c m = Some (m', r) \<and> I m'" if "I m" for m c
  proof -
    from that obtain h s where "handles m (c0 cctx') = Some h" "state h = Some s"
      "input_offset h \<le> input_last h"
      unfolding I_def by blast
    from step_order [OF assms(1) this, of c] show ?thesis unfolding I_def by blast
  qed
  ultimately have "\<exists>mem' flags. run eng (c0 cctx') calls mem1 = Some (mem', flags) \<and> I mem'"
    using run_invariant [of I "\<lambda>c. True" eng "c0 cctx'" mem1 calls] by blast
  with assms(3,4) show ?thesis by (auto simp add: I_def)
qed

lemma attach_run:
  assumes e: "engine_accepts eng"
    and "handles mem k = Some h" and "state h = Some s"
    and "unat (dictionary_count h) + length ds \<le> 15"
    and "\<forall>d \<in> set ds. GetDirectBufferAddress d \<noteq> 0"
  shows "\<exists>mem' h' s'. run eng k (map (\<lambda>d. Attach (Some d) True) ds) mem
        = Some (mem', replicate (length ds) True)
     \<and> handles mem' k = Some h' \<and> state h' = Some s'
     \<and> unat (dictionary_count h') = unat (dictionary_count h) + length ds"
  using assms(2-)
proof (induction ds arbitrary: mem h s)
  case Nil
  then show ?case by simp
next
  case (Cons d ds)
  have u: "unat (dictionary_count h) < 15" using Cons.prems(3) by simp
  then have lt: "\<not> 15 \<le> dictionary_count h" by (simp add: word_le_nat_alt)
  have a: "GetDirectBufferAddress d \<noteq> 0" using Cons.prems(4) by simp
  from attach_success [OF Cons.prems(1,2) lt a e, of 0]
  obtain mem1 h1 s1 where
    st: "nativeAttachDictionary eng True mem (call_ctx k 0) (Some d) = Some (mem1, True)"
    and h1: "handles mem1 k = Some h1" "state h1 = Some s1"
    and c1: "dictionary_count h1 = dictionary_count h + 1"
    by blast
  have u1: "unat (dictionary_count h1) = Suc (unat (dictionary_count h))"
    using c1 count_succ(2) [OF lt] by simp
  then have b: "unat (dictionary_count h1) + length ds \<le> 15" using Cons.prems(3) by simp
  have r: "\<forall>d \<in> set ds. GetDirectBufferAddress d \<noteq> 0" using Cons.prems(4) by simp
  from Cons.IH [OF h1 b r]
  obtain mem' h' s' where
    "run eng k (map (\<lambda>d. Attach (Some d) True) ds) mem1
       = Some (mem', replicate (length ds) True)"
    "handles mem' k = Some h'" "state h' = Some s'"
    "unat (dictionary_count h') = unat (dictionary_count h1) + length ds"
    by blast
  with st u1 show ?case by simp
qed

lemma scast_nonneg:
  assumes "0 \<le> sint (n :: 32 word)"
  shows "uint (scast n :: 64 word) = sint n"
proof -
  have b: "sint n < 2 ^ 31" using sint_lt [of n] by simp
  have "uint (scast n :: 64 word) = take_bit 64 (sint n)"
    by (simp only: scast_eq uint_word_of_int_eq) simp
  also have "\<dots> = sint n" using assms b by (simp add: take_bit_int_eq_self)
  finally show ?thesis .
qed

text \<open>The loop of Destroy takes out of the table the references in the slots it visits.\<close>

lemma delete_refs_mset:
  "mset (fold DeleteGlobalRef rs g) = mset g - mset (refs_of rs)"
proof (induction rs arbitrary: g)
  case Nil
  then show ?case by simp
next
  case (Cons r rs)
  show ?case
  proof (cases r)
    case None
    then show ?thesis using Cons.IH [of g] by simp
  next
    case (Some x)
    then show ?thesis using Cons.IH [of "remove1 x g"] by simp
  qed
qed

lemma refs_of_append: "refs_of (xs @ ys) = refs_of xs @ refs_of ys"
  by (induction xs rule: refs_of.induct) simp_all

lemma take_slot:
  assumes "n < length xs"
  shows "take (Suc n) (xs[n := v]) = take n xs @ [v]"
  using assms by (simp add: take_Suc_conv_app_nth)

text \<open>What each call does to the slots and to the table of global references.\<close>

lemma push_refs:
  assumes h: "handles mem k = Some h" and s: "state h = Some s"
  shows "\<exists>mem' c' h' s'. nativePush eng mem (call_ctx k t) n = Some (mem', c')
     \<and> handles mem' k = Some h' \<and> state h' = Some s'
     \<and> dictionary_refs h' = dictionary_refs h
     \<and> dictionary_count h' = dictionary_count h
     \<and> global_refs mem' = global_refs mem"
proof (cases "operation_of (ucast t)")
  case None
  then show ?thesis using h s by (simp add: nativePush_def call_ctx_def)
next
  case (Some op)
  show ?thesis
  proof (cases "n \<noteq> 0 \<and> input_offset h < input_last h")
    case True
    then show ?thesis using Some h s by (simp add: nativePush_def call_ctx_def)
  next
    case False
    then show ?thesis
      using Some h s
      by (simp add: nativePush_def call_ctx_def Let_def split_beta)
  qed
qed

lemma pull_refs:
  assumes h: "handles mem k = Some h" and s: "state h = Some s"
  shows "\<exists>mem' c' v h' s'. nativePull eng mem (call_ctx k t) = Some (mem', c', v)
     \<and> handles mem' k = Some h' \<and> state h' = Some s'
     \<and> dictionary_refs h' = dictionary_refs h
     \<and> dictionary_count h' = dictionary_count h
     \<and> global_refs mem' = global_refs mem"
  using assms
  by (simp add: nativePull_def call_ctx_def Let_def split_beta)

lemma attach_refs:
  assumes h: "handles mem k = Some h" and s: "state h = Some s"
  shows "\<exists>mem' r h' s'. nativeAttachDictionary eng granted mem (call_ctx k t) d = Some (mem', r)
     \<and> handles mem' k = Some h' \<and> state h' = Some s'
     \<and> (dictionary_refs h' = dictionary_refs h
           \<and> dictionary_count h' = dictionary_count h
           \<and> global_refs mem' = global_refs mem
         \<or> (\<exists>obj. d = Some obj \<and> \<not> 15 \<le> dictionary_count h
              \<and> dictionary_refs h'
                  = (dictionary_refs h)[unat (dictionary_count h) := Some obj]
              \<and> dictionary_count h' = dictionary_count h + 1
              \<and> global_refs mem' = global_refs mem @ [obj]))"
proof (cases d)
  case None
  then show ?thesis using h s by (auto simp add: nativeAttachDictionary_def)
next
  case (Some obj)
  show ?thesis
  proof (cases "15 \<le> dictionary_count h \<or> \<not> granted")
    case True
    then show ?thesis
      using Some h s by (auto simp add: nativeAttachDictionary_def call_ctx_def)
  next
    case False
    then show ?thesis
      using Some h s
      by (auto simp add: nativeAttachDictionary_def call_ctx_def Let_def split_beta)
  qed
qed

lemma step_accounted:
  assumes "accounted G k mem"
  shows "\<exists>mem' r. step eng k c mem = Some (mem', r) \<and> accounted G k mem'
     \<and> (holding d k mem \<longrightarrow> holding d k mem')"
proof -
  from assms obtain h s where h: "handles mem k = Some h" and s: "state h = Some s"
    and len: "length (dictionary_refs h) = 15" and le: "dictionary_count h \<le> 15"
    and acc: "mset (global_refs mem) = G + mset (held_refs h)"
    by (auto simp add: accounted_def split: option.splits)
  show ?thesis
  proof (cases c)
    case (Push t n)
    from push_refs [OF h s, of eng t n] h len le acc Push
    show ?thesis by (auto simp add: accounted_def holding_def held_refs_def)
  next
    case Pull
    from pull_refs [OF h s, of eng 0] h len le acc Pull
    show ?thesis by (auto simp add: accounted_def holding_def held_refs_def)
  next
    case (Attach d' granted)
    from attach_refs [OF h s, of eng granted 0 d']
    obtain mem' r h' s' where
      a: "nativeAttachDictionary eng granted mem (call_ctx k 0) d' = Some (mem', r)"
      and h': "handles mem' k = Some h'" "state h' = Some s'"
      and e: "dictionary_refs h' = dictionary_refs h
           \<and> dictionary_count h' = dictionary_count h
           \<and> global_refs mem' = global_refs mem
         \<or> (\<exists>obj. d' = Some obj \<and> \<not> 15 \<le> dictionary_count h
              \<and> dictionary_refs h'
                  = (dictionary_refs h)[unat (dictionary_count h) := Some obj]
              \<and> dictionary_count h' = dictionary_count h + 1
              \<and> global_refs mem' = global_refs mem @ [obj])"
      by blast
    from e have "accounted G k mem' \<and> (holding d k mem \<longrightarrow> holding d k mem')"
    proof
      assume "dictionary_refs h' = dictionary_refs h
           \<and> dictionary_count h' = dictionary_count h
           \<and> global_refs mem' = global_refs mem"
      then show ?thesis
        using h h' len le acc by (simp add: accounted_def holding_def held_refs_def)
    next
      assume "\<exists>obj. d' = Some obj \<and> \<not> 15 \<le> dictionary_count h
              \<and> dictionary_refs h'
                  = (dictionary_refs h)[unat (dictionary_count h) := Some obj]
              \<and> dictionary_count h' = dictionary_count h + 1
              \<and> global_refs mem' = global_refs mem @ [obj]"
      then obtain obj where c: "\<not> 15 \<le> dictionary_count h"
        and r: "dictionary_refs h' = (dictionary_refs h)[unat (dictionary_count h) := Some obj]"
        and n: "dictionary_count h' = dictionary_count h + 1"
        and g: "global_refs mem' = global_refs mem @ [obj]"
        by blast
      have lt: "unat (dictionary_count h) < length (dictionary_refs h)"
        using c len by (simp add: word_le_nat_alt)
      have u: "unat (dictionary_count h') = Suc (unat (dictionary_count h))"
        using n count_succ(2) [OF c] by simp
      have t: "held_refs h' = held_refs h @ [obj]"
        using take_slot [OF lt, of "Some obj"]
        by (simp add: held_refs_def u r refs_of_append)
      have "dictionary_count h' \<le> 15" using n count_succ(1) [OF c] by simp
      then show ?thesis
        using h h' len acc by (simp add: accounted_def holding_def t g r)
    qed
    with a Attach show ?thesis by simp
  qed
qed

section \<open>Create\<close>

text \<open>
  C5, as the code has it. When the requested capacity \<open>context[1]\<close> is from 1 to
  \<open>2 ^ 31 - 1\<close>, the largest capacity of a direct buffer, and the three allocations
  succeed, Create returns a direct buffer over the new input block with exactly the
  requested capacity, the block is live with that length, the cookie is the address of
  the new handle and the handle points to the block. When the requested capacity is 0,
  Create returns no buffer and the cookie 0, whatever the allocators answer.
\<close>

theorem create_capacity:
  "(0 < sint (c1 ctx) \<and> sint (c1 ctx) \<le> 2147483647
      \<and> new_EncoderHandle al \<noteq> 0 \<and> new_uint8_array al \<noteq> 0
      \<and> BrotliEncoderCreateInstance al \<noteq> None \<longrightarrow>
      snd (snd (nativeCreate eng al mem ctx))
         = Some (DirectByteBuffer (new_uint8_array al) (c1 ctx))
      \<and> c0 (fst (snd (nativeCreate eng al mem ctx))) = new_EncoderHandle al
      \<and> arrays (fst (nativeCreate eng al mem ctx)) (new_uint8_array al) = Some (c1 ctx)
      \<and> map_option input_start
           (handles (fst (nativeCreate eng al mem ctx)) (new_EncoderHandle al))
         = Some (new_uint8_array al))
   \<and> (c1 ctx = 0 \<longrightarrow>
      snd (snd (nativeCreate eng al mem ctx)) = None
      \<and> fst (snd (nativeCreate eng al mem ctx)) = ctx\<lparr>c0 := 0\<rparr>
      \<and> c0 (fst (snd (nativeCreate eng al mem ctx))) = 0)"
  by (auto simp add: nativeCreate_def Let_def clear_refs NewDirectByteBuffer_def
      split: if_splits option.splits)

theorem create_capacity_witness:
  "snd (snd (nativeCreate toy_engine toy_allocs empty_memory (create_ctx 4)))
      = Some (DirectByteBuffer 256 4)
   \<and> c0 (fst (snd (nativeCreate toy_engine toy_allocs empty_memory (create_ctx 4)))) = 64
   \<and> arrays (fst (nativeCreate toy_engine toy_allocs empty_memory (create_ctx 4))) 256 = Some 4
   \<and> snd (snd (nativeCreate toy_engine toy_allocs empty_memory (create_ctx 2147483647)))
      = Some (DirectByteBuffer 256 2147483647)
   \<and> snd (snd (nativeCreate toy_engine toy_allocs empty_memory (create_ctx 0))) = None
   \<and> c0 (fst (snd (nativeCreate toy_engine toy_allocs empty_memory (create_ctx 0)))) = 0"
  using create_capacity [of "create_ctx 4" toy_allocs toy_engine empty_memory]
    create_capacity [of "create_ctx 2147483647" toy_allocs toy_engine empty_memory]
    create_capacity [of "create_ctx 0" toy_allocs toy_engine empty_memory]
  by (simp add: create_ctx_def toy_allocs_def)

text \<open>
  C5 as stated, for every capacity above 0, fails: Create hands the requested capacity
  to \<^verbatim>\<open>NewDirectByteBuffer\<close> as it came. With the capacity \<open>2 ^ 31\<close> and the three
  allocations succeeding, the JVM refuses the buffer and Create returns null.
\<close>

theorem create_capacity_counterexample:
  "0 < sint (c1 (create_ctx 2147483648))
   \<and> new_EncoderHandle toy_allocs \<noteq> 0 \<and> new_uint8_array toy_allocs \<noteq> 0
   \<and> BrotliEncoderCreateInstance toy_allocs \<noteq> None
   \<and> snd (snd (nativeCreate toy_engine toy_allocs empty_memory (create_ctx 2147483648)))
       = None"
  by (simp add: nativeCreate_def Let_def clear_refs NewDirectByteBuffer_def toy_engine_def
      toy_allocs_def empty_memory_def create_ctx_def)




section \<open>Pull\<close>



section \<open>Push\<close>

text \<open>
  C1. A Push on a valid handle whose operation tag (\<open>context[1]\<close> as the \<^verbatim>\<open>int\<close> the
  switch looks at) is 0, 1 or 2, and that passes the guard on new input (no new input, or
  no pending byte left), runs one engine step with the operation of the tag: Process for
  0, Flush for 1, Finish for 2. With new input the window is first reset: \<open>offset\<close> is 0
  and \<open>limit\<close> is \<open>input_length\<close> converted to \<^verbatim>\<open>size_t\<close>, the same number when it is not
  negative; without new input they are the stored \<open>input_offset\<close> and \<open>input_last\<close>.
  The engine is offered \<open>limit - offset\<close> bytes at \<open>input_start + offset\<close> with that
  operation and answers a status, the bytes \<open>rest\<close> it left and its new state.
  Push stores \<open>limit\<close> as \<open>input_last\<close>, advances \<open>input_offset\<close> from \<open>offset\<close> by the
  \<open>limit - offset - rest\<close> bytes consumed, and, when the status is good, reports success 1
  with hasMoreOutput and isFinished as the engine answers them on its new state and
  hasRemainingInput as \<open>input_offset \<noteq> input_last\<close> after the step; when the status is bad
  it reports 0 and leaves the other slots as they came.
\<close>

theorem push_step:
  assumes "handles mem (c0 ctx) = Some h" and "state h = Some s"
    and "tag = (ucast (c1 ctx) :: 32 word)"
    and "tag = 0 \<and> op = BROTLI_OPERATION_PROCESS
       \<or> tag = 1 \<and> op = BROTLI_OPERATION_FLUSH
       \<or> tag = 2 \<and> op = BROTLI_OPERATION_FINISH"
    and "input_length \<noteq> 0 \<longrightarrow> \<not> input_offset h < input_last h"
    and "offset = (if input_length \<noteq> 0 then 0 else input_offset h)"
    and "limit = (if input_length \<noteq> 0 then scast input_length else input_last h)"
    and "BrotliEncoderCompressStream eng s op (limit - offset) (input_start h + offset)
           = (status, rest, s')"
  shows "nativePush eng mem ctx input_length =
    Some (mem\<lparr>handles := (handles mem)(c0 ctx \<mapsto>
            h\<lparr>state := Some s', input_offset := offset + (limit - offset - rest),
              input_last := limit\<rparr>)\<rparr>,
          if status
          then ctx\<lparr>c1 := 1,
                 c2 := flag (BrotliEncoderHasMoreOutput eng s'),
                 c3 := flag (offset + (limit - offset - rest) \<noteq> limit),
                 c4 := flag (BrotliEncoderIsFinished eng s')\<rparr>
          else ctx\<lparr>c1 := 0\<rparr>)
    \<and> (input_length \<noteq> 0 \<and> 0 \<le> sint input_length \<longrightarrow>
         offset = 0 \<and> uint limit = sint input_length)"
proof -
  have op: "operation_of (ucast (c1 ctx)) = Some op"
    using assms(3,4) by (auto simp add: operation_of_def)
  have "input_length \<noteq> 0 \<and> 0 \<le> sint input_length \<longrightarrow>
      offset = 0 \<and> uint limit = sint input_length"
    using assms(6,7) by (simp add: scast_nonneg)
  moreover have "nativePush eng mem ctx input_length =
    Some (mem\<lparr>handles := (handles mem)(c0 ctx \<mapsto>
            h\<lparr>state := Some s', input_offset := offset + (limit - offset - rest),
              input_last := limit\<rparr>)\<rparr>,
          if status
          then ctx\<lparr>c1 := 1,
                 c2 := flag (BrotliEncoderHasMoreOutput eng s'),
                 c3 := flag (offset + (limit - offset - rest) \<noteq> limit),
                 c4 := flag (BrotliEncoderIsFinished eng s')\<rparr>
          else ctx\<lparr>c1 := 0\<rparr>)"
    using assms(1,2,5,6,7,8) op by (cases h) (auto simp add: nativePush_def Let_def)
  ultimately show ?thesis by simp
qed

text \<open>
  The witness runs the three operations: a Process step on the new handle with four new
  bytes, and a Flush step and a Finish step on the two bytes that step left pending.
\<close>

theorem push_step_witness:
  "nativePush toy_engine toy_created (toy_ctx 0) 4 =
     Some (toy_created\<lparr>handles := (handles toy_created)(64 \<mapsto>
             toy_fresh\<lparr>state := Some \<lparr>buffered = 2, finished = False\<rparr>,
               input_offset := 2, input_last := 4\<rparr>)\<rparr>,
           \<lparr>c0 = 64, c1 = 1, c2 = 1, c3 = 1, c4 = 0\<rparr>)
   \<and> nativePush toy_engine toy_memory (toy_ctx 1) 0 =
     Some (toy_memory\<lparr>handles := (handles toy_memory)(64 \<mapsto>
             toy_handle\<lparr>state := Some \<lparr>buffered = 5, finished = False\<rparr>,
               input_offset := 4, input_last := 4\<rparr>)\<rparr>,
           \<lparr>c0 = 64, c1 = 1, c2 = 1, c3 = 0, c4 = 0\<rparr>)
   \<and> nativePush toy_engine toy_memory (toy_ctx 2) 0 =
     Some (toy_memory\<lparr>handles := (handles toy_memory)(64 \<mapsto>
             toy_handle\<lparr>state := Some \<lparr>buffered = 4, finished = True\<rparr>,
               input_offset := 4, input_last := 4\<rparr>)\<rparr>,
           \<lparr>c0 = 64, c1 = 1, c2 = 1, c3 = 0, c4 = 0\<rparr>)"
proof -
  have h0: "handles toy_created (c0 (toy_ctx 0)) = Some toy_fresh"
    by (simp add: toy_created_def toy_ctx_def)
  have s0: "state toy_fresh = Some \<lparr>buffered = 0, finished = False\<rparr>"
    by (simp add: toy_fresh_def)
  have t0: "(0 :: 32 word) = ucast (c1 (toy_ctx 0))" by (simp add: toy_ctx_def)
  have o0: "(0 :: 32 word) = 0 \<and> BROTLI_OPERATION_PROCESS = BROTLI_OPERATION_PROCESS
       \<or> (0 :: 32 word) = 1 \<and> BROTLI_OPERATION_PROCESS = BROTLI_OPERATION_FLUSH
       \<or> (0 :: 32 word) = 2 \<and> BROTLI_OPERATION_PROCESS = BROTLI_OPERATION_FINISH"
    by simp
  have g0: "(4 :: jint) \<noteq> 0 \<longrightarrow> \<not> input_offset toy_fresh < input_last toy_fresh"
    by (simp add: toy_fresh_def)
  have off0: "(0 :: size_t) = (if (4 :: jint) \<noteq> 0 then 0 else input_offset toy_fresh)"
    by simp
  have lim0: "(4 :: size_t) = (if (4 :: jint) \<noteq> 0 then scast (4 :: jint)
      else input_last toy_fresh)"
    by simp
  have r0: "BrotliEncoderCompressStream toy_engine \<lparr>buffered = 0, finished = False\<rparr>
      BROTLI_OPERATION_PROCESS (4 - 0) (input_start toy_fresh + 0)
      = (True, 2, \<lparr>buffered = 2, finished = False\<rparr>)"
    by (simp add: toy_engine_def)
  have h: "handles toy_memory (c0 (toy_ctx 1)) = Some toy_handle"
    "handles toy_memory (c0 (toy_ctx 2)) = Some toy_handle"
    by (simp_all add: toy_memory_def toy_ctx_def)
  have s: "state toy_handle = Some \<lparr>buffered = 2, finished = False\<rparr>"
    by (simp add: toy_handle_def)
  have t1: "(1 :: 32 word) = ucast (c1 (toy_ctx 1))" by (simp add: toy_ctx_def)
  have t2: "(2 :: 32 word) = ucast (c1 (toy_ctx 2))" by (simp add: toy_ctx_def)
  have o1: "(1 :: 32 word) = 0 \<and> BROTLI_OPERATION_FLUSH = BROTLI_OPERATION_PROCESS
       \<or> (1 :: 32 word) = 1 \<and> BROTLI_OPERATION_FLUSH = BROTLI_OPERATION_FLUSH
       \<or> (1 :: 32 word) = 2 \<and> BROTLI_OPERATION_FLUSH = BROTLI_OPERATION_FINISH"
    by simp
  have o2: "(2 :: 32 word) = 0 \<and> BROTLI_OPERATION_FINISH = BROTLI_OPERATION_PROCESS
       \<or> (2 :: 32 word) = 1 \<and> BROTLI_OPERATION_FINISH = BROTLI_OPERATION_FLUSH
       \<or> (2 :: 32 word) = 2 \<and> BROTLI_OPERATION_FINISH = BROTLI_OPERATION_FINISH"
    by simp
  have g: "(0 :: jint) \<noteq> 0 \<longrightarrow> \<not> input_offset toy_handle < input_last toy_handle"
    by simp
  have off: "(2 :: size_t) = (if (0 :: jint) \<noteq> 0 then 0 else input_offset toy_handle)"
    by (simp add: toy_handle_def)
  have lim: "(4 :: size_t) = (if (0 :: jint) \<noteq> 0 then scast (0 :: jint)
      else input_last toy_handle)"
    by (simp add: toy_handle_def)
  have r1: "BrotliEncoderCompressStream toy_engine \<lparr>buffered = 2, finished = False\<rparr>
      BROTLI_OPERATION_FLUSH (4 - 2) (input_start toy_handle + 2)
      = (True, 0, \<lparr>buffered = 5, finished = False\<rparr>)"
    by (simp add: toy_engine_def)
  have r2: "BrotliEncoderCompressStream toy_engine \<lparr>buffered = 2, finished = False\<rparr>
      BROTLI_OPERATION_FINISH (4 - 2) (input_start toy_handle + 2)
      = (True, 0, \<lparr>buffered = 4, finished = True\<rparr>)"
    by (simp add: toy_engine_def)
  show ?thesis
    using push_step [OF h0 s0 t0 o0 g0 off0 lim0 r0]
      push_step [OF h(1) s t1 o1 g off lim r1]
      push_step [OF h(2) s t2 o2 g off lim r2]
    by (simp add: toy_engine_def toy_ctx_def flag_def)
qed

text \<open>
  C2. Take a handle as any sequence of calls leaves it after a successful Create, the
  engine keeping its contract. If its window is not fully consumed
  (\<open>input_offset \<noteq> input_last\<close>), a Push that brings new input fails: the success flag
  is 0 and the memory, with the handle's offsets and engine state, is the one before the
  call, whatever the operation tag. A Pull after the failed call is therefore the Pull
  before it, status flags included.
\<close>

theorem push_pending_rejected:
  assumes "engine_consumes eng"
    and "nativeCreate eng al mem0 cctx = (mem1, cctx', Some view)"
    and "run eng (c0 cctx') calls mem1 = Some (mem, flags)"
    and "c0 ctx = c0 cctx'" and "handles mem (c0 ctx) = Some h"
    and "input_length \<noteq> 0" and "input_offset h \<noteq> input_last h"
  shows "nativePush eng mem ctx input_length = Some (mem, ctx\<lparr>c1 := 0\<rparr>)
    \<and> Option.bind (nativePush eng mem ctx input_length) (\<lambda>r. nativePull eng (fst r) pctx)
        = nativePull eng mem pctx"
proof -
  have "input_offset h \<le> input_last h"
    using run_order [OF assms(1,2,3)] assms(4,5) by simp
  then have "input_offset h < input_last h" using assms(7) by simp
  then show ?thesis
    using assms(5,6)
    by (auto simp add: nativePush_def Let_def split: option.splits)
qed

theorem push_pending_rejected_witness:
  "nativePush toy_engine toy_memory (toy_ctx 0) 3 = Some (toy_memory, toy_ctx 0)
   \<and> Option.bind (nativePush toy_engine toy_memory (toy_ctx 0) 3)
        (\<lambda>r. nativePull toy_engine (fst r) (toy_ctx 0))
      = nativePull toy_engine toy_memory (toy_ctx 0)"
proof -
  have k: "c0 (toy_ctx 0) = c0 (toy_ctx 4\<lparr>c2 := 5, c3 := 22\<rparr>)"
    by (simp add: toy_ctx_def)
  have r: "run toy_engine (c0 (toy_ctx 4\<lparr>c2 := 5, c3 := 22\<rparr>)) [Push 0 4] toy_created
      = Some (toy_memory, [True])"
    using toy_first_push by (simp add: toy_ctx_def)
  have h: "handles toy_memory (c0 (toy_ctx 0)) = Some toy_handle"
    by (simp add: toy_memory_def toy_ctx_def)
  have n: "(3 :: jint) \<noteq> 0" by simp
  have ne: "input_offset toy_handle \<noteq> input_last toy_handle"
    by (simp add: toy_handle_def)
  show ?thesis
    using push_pending_rejected [OF toy_engine_consumes toy_create r k h n ne, of "toy_ctx 0"]
    by (simp add: toy_ctx_def)
qed

text \<open>
  C9, as the code has it. The tag the switch looks at is \<open>context[1]\<close> narrowed to the
  32 bits of an \<^verbatim>\<open>int\<close>. When that value is not 0 (Process), 1 (Flush) or 2 (Finish) the
  call returns at once: the success flag is 0 and the memory is untouched, whatever the
  cookie and the input length.
\<close>

theorem push_unknown_operation:
  assumes "(ucast (c1 ctx) :: 32 word) \<notin> {0, 1, 2}"
  shows "nativePush eng mem ctx input_length = Some (mem, ctx\<lparr>c1 := 0\<rparr>)"
  using assms by (simp add: nativePush_def operation_of_def)

theorem push_unknown_operation_witness:
  "(ucast (c1 (toy_ctx 7)) :: 32 word) \<notin> {0, 1, 2}
   \<and> nativePush toy_engine toy_memory (toy_ctx 7) 5 = Some (toy_memory, toy_ctx 0)"
  using push_unknown_operation [of "toy_ctx 7" toy_engine toy_memory 5]
  by (simp add: toy_ctx_def)

text \<open>
  C9 as stated fails on a tag that is none of 0, 1, 2 as a \<^verbatim>\<open>jlong\<close> but narrows to one
  of them: the tag \<open>2 ^ 32\<close> narrows to 0, the call is a Process step, it reports success
  and moves \<open>input_offset\<close> from 2 to 4.
\<close>

theorem push_wide_tag_counterexample:
  "c1 (toy_ctx 4294967296) \<notin> {0, 1, 2}
   \<and> map_option input_offset (handles toy_memory 64) = Some 2
   \<and> map_option (c1 \<circ> snd) (nativePush toy_engine toy_memory (toy_ctx 4294967296) 0)
       = Some 1
   \<and> Option.bind (map_option fst (nativePush toy_engine toy_memory (toy_ctx 4294967296) 0))
       (map_option input_offset \<circ> (\<lambda>m. handles m 64)) = Some 4"
  by (simp add: nativePush_def operation_of_def toy_ctx_def toy_memory_def toy_handle_def
      toy_engine_def flag_def)

section \<open>The input window over a sequence of calls\<close>

text \<open>
  C3, as the code has it. Let the engine keep its contract (a step leaves at most the input
  it was offered) and let Create succeed with capacity \<open>C = context[1]\<close>. Then every
  sequence of Push, Pull and AttachDictionary calls on the handle in which each Push
  passes a length between 0 and \<open>C\<close> runs through, and after it
  \<open>0 \<le> input_offset \<le> input_last \<le> C\<close>. A prefix of such a sequence is such a sequence,
  so the invariant holds after every call.
\<close>

theorem window_invariant:
  assumes "engine_consumes eng"
    and "nativeCreate eng al mem0 cctx = (mem, cctx', Some view)"
    and "\<forall>c \<in> set calls. push_within (c1 cctx) c"
  shows "\<exists>mem' flags. run eng (c0 cctx') calls mem = Some (mem', flags)
     \<and> window_ok_at (c0 cctx') (c1 cctx) mem'"
proof -
  define I where "I = (\<lambda>m :: 'a memory. \<exists>h s. handles m (c0 cctx') = Some h
     \<and> state h = Some s \<and> arrays m (input_start h) = Some (c1 cctx)
     \<and> input_offset h \<le> input_last h \<and> input_last h \<le> c1 cctx)"
  from nativeCreate_success [OF assms(2)] have "I mem"
    by (auto simp add: I_def)
  moreover have "\<exists>m' r. step eng (c0 cctx') c m = Some (m', r) \<and> I m'"
    if "I m" and "push_within (c1 cctx) c" for m c
  proof -
    from that(1) obtain h s where "handles m (c0 cctx') = Some h" "state h = Some s"
      "arrays m (input_start h) = Some (c1 cctx)"
      "input_offset h \<le> input_last h" "input_last h \<le> c1 cctx"
      unfolding I_def by blast
    from step_window [OF assms(1) this that(2)] show ?thesis unfolding I_def by blast
  qed
  ultimately obtain mem' flags where "run eng (c0 cctx') calls mem = Some (mem', flags)"
    and "I mem'"
    using run_invariant [of I "push_within (c1 cctx)" eng "c0 cctx'" mem calls] assms(3)
    by blast
  then show ?thesis by (auto simp add: I_def window_ok_at_def)
qed

theorem window_invariant_witness:
  "\<exists>mem' flags.
     run toy_engine 64 [Push 0 4, Pull, Push 0 0, Attach (Some OtherObject) True, Push 2 0, Pull]
       toy_created = Some (mem', flags)
     \<and> window_ok_at 64 4 mem'"
proof -
  have p: "\<forall>c \<in> set [Push 0 4, Pull, Push 0 0, Attach (Some OtherObject) True, Push 2 0, Pull].
      push_within (c1 (create_ctx 4)) c"
    by (simp add: create_ctx_def)
  show ?thesis
    using window_invariant [OF toy_engine_consumes toy_create p]
    by (simp add: create_ctx_def toy_ctx_def)
qed

text \<open>
  C3 as stated, for every length passed to Push, fails: Push stores the length as
  \<open>input_last\<close> without comparing it with the capacity. After Create with capacity 4, a
  Push of length 10 succeeds and leaves \<open>input_last = 10\<close>.
\<close>

theorem window_overrun_counterexample:
  "nativeCreate toy_engine toy_allocs empty_memory (create_ctx 4) =
     (toy_created, toy_ctx 4\<lparr>c2 := 5, c3 := 22\<rparr>, Some (DirectByteBuffer 256 4))
   \<and> map_option snd (run toy_engine 64 [Push 0 10] toy_created) = Some [True]
   \<and> map_option (window_ok_at 64 4 \<circ> fst) (run toy_engine 64 [Push 0 10] toy_created)
       = Some False
   \<and> Option.bind (map_option fst (run toy_engine 64 [Push 0 10] toy_created))
       (map_option input_last \<circ> (\<lambda>m. handles m 64)) = Some 10"
  using toy_create
  by (simp add: nativePush_def operation_of_def call_ctx_def Let_def toy_engine_def
      toy_created_def toy_fresh_def flag_def window_ok_at_def)

section \<open>Dictionaries\<close>

text \<open>
  C4. After a successful Create, whatever calls are made on the handle, they run through
  and \<open>dictionary_count\<close> is at most 15; and in a memory where the count is 15, every
  AttachDictionary on the handle returns false and the memory as it was. Moreover, when
  the engine accepts every dictionary, attaching 15 direct buffers with an address to
  the new handle returns true 15 times and leaves the count at 15.
\<close>

theorem dictionary_capacity:
  assumes "nativeCreate eng al mem0 cctx = (mem, cctx', Some view)"
  shows "(\<exists>mem' flags h'. run eng (c0 cctx') calls mem = Some (mem', flags)
       \<and> handles mem' (c0 cctx') = Some h' \<and> dictionary_count h' \<le> 15
       \<and> (dictionary_count h' = 15 \<and> c0 actx = c0 cctx' \<longrightarrow>
            nativeAttachDictionary eng granted mem' actx d = Some (mem', False)))
    \<and> (engine_accepts eng \<and> length ds = 15 \<and> (\<forall>d \<in> set ds. GetDirectBufferAddress d \<noteq> 0)
         \<longrightarrow> (\<exists>mem' h'. run eng (c0 cctx') (map (\<lambda>d. Attach (Some d) True) ds) mem
                 = Some (mem', replicate 15 True)
              \<and> handles mem' (c0 cctx') = Some h' \<and> dictionary_count h' = 15))"
proof -
  from nativeCreate_success [OF assms]
  obtain h s where h: "handles mem (c0 cctx') = Some h" "state h = Some s"
    and c: "dictionary_count h = 0"
    by auto
  define I where "I = (\<lambda>m :: 'a memory. \<exists>h s. handles m (c0 cctx') = Some h \<and> state h = Some s
     \<and> dictionary_count h \<le> 15)"
  have "I mem" using h c by (auto simp add: I_def)
  moreover have "\<forall>c \<in> set calls. True" by simp
  moreover have "\<exists>m' r. step eng (c0 cctx') c m = Some (m', r) \<and> I m'" if "I m" for m c
  proof -
    from that obtain h s where "handles m (c0 cctx') = Some h" "state h = Some s"
      "dictionary_count h \<le> 15"
      unfolding I_def by blast
    from step_count [OF this, of eng c] show ?thesis unfolding I_def by blast
  qed
  ultimately obtain mem' flags where r: "run eng (c0 cctx') calls mem = Some (mem', flags)"
    and "I mem'"
    using run_invariant [of I "\<lambda>c. True" eng "c0 cctx'" mem calls] by blast
  then obtain h' where h': "handles mem' (c0 cctx') = Some h'" "dictionary_count h' \<le> 15"
    by (auto simp add: I_def)
  have full: "dictionary_count h' = 15 \<and> c0 actx = c0 cctx' \<longrightarrow>
            nativeAttachDictionary eng granted mem' actx d = Some (mem', False)"
    using h'(1) attach_full [of mem' actx h' eng granted d] by simp
  have first: "\<exists>mem' flags h'. run eng (c0 cctx') calls mem = Some (mem', flags)
       \<and> handles mem' (c0 cctx') = Some h' \<and> dictionary_count h' \<le> 15
       \<and> (dictionary_count h' = 15 \<and> c0 actx = c0 cctx' \<longrightarrow>
            nativeAttachDictionary eng granted mem' actx d = Some (mem', False))"
    using r h' full by blast
  have second: "engine_accepts eng \<and> length ds = 15 \<and> (\<forall>d \<in> set ds. GetDirectBufferAddress d \<noteq> 0)
         \<longrightarrow> (\<exists>mem' h'. run eng (c0 cctx') (map (\<lambda>d. Attach (Some d) True) ds) mem
                 = Some (mem', replicate 15 True)
              \<and> handles mem' (c0 cctx') = Some h' \<and> dictionary_count h' = 15)"
  proof (intro impI, elim conjE)
    assume e: "engine_accepts eng" and l: "length ds = 15"
      and a: "\<forall>d \<in> set ds. GetDirectBufferAddress d \<noteq> 0"
    have b: "unat (dictionary_count h) + length ds \<le> 15" using c l by simp
    from attach_run [OF e h b a]
    obtain m2 h2 where "run eng (c0 cctx') (map (\<lambda>d. Attach (Some d) True) ds) mem
        = Some (m2, replicate (length ds) True)" "handles m2 (c0 cctx') = Some h2"
      "unat (dictionary_count h2) = unat (dictionary_count h) + length ds"
      by blast
    moreover from this(3) c l have "dictionary_count h2 = 15"
      by (simp add: word_unat_eq_iff)
    ultimately show "\<exists>mem' h'. run eng (c0 cctx') (map (\<lambda>d. Attach (Some d) True) ds) mem
                 = Some (mem', replicate 15 True)
              \<and> handles mem' (c0 cctx') = Some h' \<and> dictionary_count h' = 15"
      using l by auto
  qed
  from first second show ?thesis by (rule conjI)
qed

theorem dictionary_capacity_witness:
  "(\<exists>mem' h'. run toy_engine 64
        (map (\<lambda>d. Attach (Some d) True) (replicate 15 toy_dictionary)) toy_created
          = Some (mem', replicate 15 True)
      \<and> handles mem' 64 = Some h' \<and> dictionary_count h' = 15)
   \<and> (\<exists>mem' flags h'.
        run toy_engine 64 (replicate 16 (Attach (Some toy_dictionary) True)) toy_created
          = Some (mem', flags)
      \<and> handles mem' 64 = Some h' \<and> dictionary_count h' \<le> 15)
   \<and> map_option snd
        (run toy_engine 64 (replicate 16 (Attach (Some toy_dictionary) True)) toy_created)
      = Some (replicate 15 True @ [False])"
proof -
  have a: "engine_accepts toy_engine \<and> length (replicate 15 toy_dictionary) = 15
     \<and> (\<forall>d \<in> set (replicate 15 toy_dictionary). GetDirectBufferAddress d \<noteq> 0)"
    by (simp add: toy_engine_accepts toy_dictionary_def)
  have b: "map_option snd
        (run toy_engine 64 (replicate 16 (Attach (Some toy_dictionary) True)) toy_created)
      = Some (replicate 15 True @ [False])"
    by code_simp
  have "(\<exists>mem' h'. run toy_engine 64
        (map (\<lambda>d. Attach (Some d) True) (replicate 15 toy_dictionary)) toy_created
          = Some (mem', replicate 15 True)
      \<and> handles mem' 64 = Some h' \<and> dictionary_count h' = 15)
   \<and> (\<exists>mem' flags h'.
        run toy_engine 64 (replicate 16 (Attach (Some toy_dictionary) True)) toy_created
          = Some (mem', flags)
      \<and> handles mem' 64 = Some h' \<and> dictionary_count h' \<le> 15)"
    using a dictionary_capacity [OF toy_create,
        of "replicate 16 (Attach (Some toy_dictionary) True)" "toy_ctx 0" True None
           "replicate 15 toy_dictionary"]
    by (simp add: toy_ctx_def) blast
  with b show ?thesis by simp
qed

text \<open>
  C10, as the code has it. An AttachDictionary with a dictionary, on a valid handle with
  fewer than 15 dictionaries, that is granted its global reference, stores the reference
  in the next slot and increments \<open>dictionary_count\<close> before it looks at the buffer
  address. So when the address is null, or the engine then rejects the dictionary, the
  call returns false and yet leaves the count one higher, the reference in its slot and
  in the table of global references. The reference is held until Destroy: on a handle
  that any calls have worked on since its Create, whatever calls follow the failed one
  run through and leave a reference to the object in the table, and Destroy then runs
  through and leaves in the table the references that were there at Create, those taken
  by the failed call and by every other call deleted, and the handle is gone.
\<close>

theorem attach_late_failure:
  assumes h: "handles mem (c0 ctx) = Some h" and s: "state h = Some s"
    and c: "\<not> 15 \<le> dictionary_count h"
    and f: "GetDirectBufferAddress d = 0
      \<or> \<not> fst (BrotliEncoderAttachPreparedDictionary eng s (GetDirectBufferAddress d))"
  shows "\<exists>mem' h'. nativeAttachDictionary eng True mem ctx (Some d) = Some (mem', False)
     \<and> handles mem' (c0 ctx) = Some h'
     \<and> dictionary_count h' = dictionary_count h + 1
     \<and> dictionary_refs h' = (dictionary_refs h)[unat (dictionary_count h) := Some d]
     \<and> global_refs mem' = global_refs mem @ [d]
     \<and> (nativeCreate eng al mem0 cctx = (mem1, cctx', Some view) \<and> c0 cctx' = c0 ctx
          \<and> run eng (c0 ctx) earlier mem1 = Some (mem, flags) \<longrightarrow>
          (\<exists>mem2 flags2 mem3. run eng (c0 ctx) later mem' = Some (mem2, flags2)
             \<and> d \<in> set (global_refs mem2)
             \<and> nativeDestroy eng mem2 ctx = Some mem3
             \<and> mset (global_refs mem3) = mset (global_refs mem0)
             \<and> handles mem3 (c0 ctx) = None))"
proof -
  obtain ok s' where r:
    "BrotliEncoderAttachPreparedDictionary eng s (GetDirectBufferAddress d) = (ok, s')"
    by (cases "BrotliEncoderAttachPreparedDictionary eng s (GetDirectBufferAddress d)")
  define h' where "h' = (if GetDirectBufferAddress d = 0 then h else h\<lparr>state := Some s'\<rparr>)
      \<lparr>dictionary_refs := (dictionary_refs h)[unat (dictionary_count h) := Some d],
       dictionary_count := dictionary_count h + 1\<rparr>"
  define mem' where "mem' = mem\<lparr>global_refs := global_refs mem @ [d],
      handles := (handles mem)(c0 ctx \<mapsto> h')\<rparr>"
  have ok: "GetDirectBufferAddress d \<noteq> 0 \<Longrightarrow> \<not> ok" using f r by auto
  have att: "nativeAttachDictionary eng True mem ctx (Some d) = Some (mem', False)"
    using h s c r ok
    by (cases h) (auto simp add: nativeAttachDictionary_def Let_def mem'_def h'_def)
  have hm: "handles mem' (c0 ctx) = Some h'" by (simp add: mem'_def)
  have st: "state h' \<noteq> None" using s by (simp add: h'_def)
  have cnt: "dictionary_count h' = dictionary_count h + 1" by (simp add: h'_def)
  have refs: "dictionary_refs h' = (dictionary_refs h)[unat (dictionary_count h) := Some d]"
    by (simp add: h'_def)
  have g: "global_refs mem' = global_refs mem @ [d]" by (simp add: mem'_def)
  have u: "unat (dictionary_count h') = Suc (unat (dictionary_count h))"
    using cnt count_succ(2) [OF c] by simp
  have le: "dictionary_count h' \<le> 15" using cnt count_succ(1) [OF c] by simp
  define G where "G = mset (global_refs mem0)"
  have stepI: "\<exists>m' r. step eng (c0 ctx) c m = Some (m', r) \<and> accounted G (c0 ctx) m'"
    if "accounted G (c0 ctx) m" for m c
    using step_accounted [OF that, of eng c d] by blast
  have stepJ: "\<exists>m' r. step eng (c0 ctx) c m = Some (m', r)
      \<and> accounted G (c0 ctx) m' \<and> holding d (c0 ctx) m'"
    if "accounted G (c0 ctx) m \<and> holding d (c0 ctx) m" for m c
    using step_accounted [of G "c0 ctx" m eng c d] that by blast
  have later: "\<exists>mem2 flags2 mem3. run eng (c0 ctx) later mem' = Some (mem2, flags2)
             \<and> d \<in> set (global_refs mem2)
             \<and> nativeDestroy eng mem2 ctx = Some mem3
             \<and> mset (global_refs mem3) = mset (global_refs mem0)
             \<and> handles mem3 (c0 ctx) = None"
    if created: "nativeCreate eng al mem0 cctx = (mem1, cctx', Some view)"
      and k: "c0 cctx' = c0 ctx"
      and reached: "run eng (c0 ctx) earlier mem1 = Some (mem, flags)"
  proof -
    from nativeCreate_success [OF created] k have "accounted G (c0 ctx) mem1"
      by (auto simp add: accounted_def held_refs_def G_def)
    with stepI have "\<exists>m fl. run eng (c0 ctx) earlier mem1 = Some (m, fl)
        \<and> accounted G (c0 ctx) m"
      using run_invariant [of "accounted G (c0 ctx)" "\<lambda>c. True" eng "c0 ctx" mem1 earlier]
      by blast
    with reached have am: "accounted G (c0 ctx) mem" by simp
    with h have len: "length (dictionary_refs h) = 15"
      and acc: "mset (global_refs mem) = G + mset (held_refs h)"
      by (simp_all add: accounted_def)
    have lt: "unat (dictionary_count h) < length (dictionary_refs h)"
      using c len by (simp add: word_le_nat_alt)
    have t: "held_refs h' = held_refs h @ [d]"
      using take_slot [OF lt, of "Some d"] by (simp add: held_refs_def u refs refs_of_append)
    have "accounted G (c0 ctx) mem' \<and> holding d (c0 ctx) mem'"
      using hm st len le acc by (simp add: accounted_def holding_def t g refs)
    with stepJ obtain mem2 flags2 where
      r2: "run eng (c0 ctx) later mem' = Some (mem2, flags2)"
      and a2: "accounted G (c0 ctx) mem2" and d2: "holding d (c0 ctx) mem2"
      using run_invariant [of "\<lambda>m. accounted G (c0 ctx) m \<and> holding d (c0 ctx) m"
          "\<lambda>c. True" eng "c0 ctx" mem' later]
      by blast
    from a2 d2 obtain h2 where h2: "handles mem2 (c0 ctx) = Some h2"
      and l2: "length (dictionary_refs h2) = 15" "dictionary_count h2 \<le> 15"
      and acc2: "mset (global_refs mem2) = G + mset (held_refs h2)"
      and held: "d \<in> set (held_refs h2)"
      by (auto simp add: accounted_def holding_def split: option.splits)
    have "d \<in># mset (global_refs mem2)" using held by (simp add: acc2)
    then have in2: "d \<in> set (global_refs mem2)" by simp
    have "mset (fold DeleteGlobalRef
        (take (unat (dictionary_count h2)) (dictionary_refs h2)) (global_refs mem2)) = G"
      by (simp add: delete_refs_mset acc2 held_refs_def)
    moreover have "\<not> length (dictionary_refs h2) < unat (dictionary_count h2)"
      using l2 by (simp add: word_le_nat_alt)
    ultimately have "\<exists>mem3. nativeDestroy eng mem2 ctx = Some mem3
       \<and> mset (global_refs mem3) = mset (global_refs mem0) \<and> handles mem3 (c0 ctx) = None"
      using h2 by (simp add: nativeDestroy_def G_def)
    with r2 in2 show ?thesis by blast
  qed
  from att hm cnt refs g later show ?thesis by blast
qed

text \<open>
  The witness is a second failed attach of the same object: the first one, on the new
  handle, left the count at 1; the second, refused by its null address like the first,
  leaves it at 2 with two references in the table, and Destroy, after a Pull, leaves the
  empty table of Create. A dictionary that the engine rejects fails in the same way.
\<close>

theorem attach_late_failure_witness:
  "run toy_engine 64 [Attach (Some OtherObject) True] toy_created
      = Some (toy_attached, [False])
   \<and> map_option snd (nativeAttachDictionary toy_engine True toy_attached (toy_ctx 0)
       (Some OtherObject)) = Some False
   \<and> Option.bind (nativeAttachDictionary toy_engine True toy_attached (toy_ctx 0)
       (Some OtherObject)) (map_option dictionary_count \<circ> (\<lambda>r. handles (fst r) 64)) = Some 2
   \<and> map_option (global_refs \<circ> fst) (nativeAttachDictionary toy_engine True toy_attached
       (toy_ctx 0) (Some OtherObject)) = Some [OtherObject, OtherObject]
   \<and> (\<exists>mem' mem2 flags2 mem3.
        nativeAttachDictionary toy_engine True toy_attached (toy_ctx 0) (Some OtherObject)
          = Some (mem', False)
        \<and> run toy_engine 64 [Pull] mem' = Some (mem2, flags2)
        \<and> OtherObject \<in> set (global_refs mem2)
        \<and> nativeDestroy toy_engine mem2 (toy_ctx 0) = Some mem3
        \<and> global_refs mem3 = [] \<and> handles mem3 64 = None)
   \<and> map_option snd (nativeAttachDictionary rejecting_engine True toy_created (toy_ctx 0)
       (Some toy_dictionary)) = Some False
   \<and> Option.bind (nativeAttachDictionary rejecting_engine True toy_created (toy_ctx 0)
       (Some toy_dictionary))
       (map_option dictionary_count \<circ> (\<lambda>r. handles (fst r) 64)) = Some 1"
proof -
  have e: "run toy_engine (c0 (toy_ctx 0)) [Attach (Some OtherObject) True] toy_created
      = Some (toy_attached, [False])"
    by (simp add: nativeAttachDictionary_def call_ctx_def Let_def toy_ctx_def
        toy_created_def toy_attached_def toy_fresh_def)
  have k: "c0 (toy_ctx 4\<lparr>c2 := 5, c3 := 22\<rparr>) = c0 (toy_ctx 0)"
    by (simp add: toy_ctx_def)
  have h1: "handles toy_attached (c0 (toy_ctx 0))
      = Some (toy_fresh\<lparr>dictionary_refs := (replicate 15 None)[0 := Some OtherObject],
           dictionary_count := 1\<rparr>)"
    by (simp add: toy_attached_def toy_ctx_def)
  have s1: "state (toy_fresh\<lparr>dictionary_refs := (replicate 15 None)[0 := Some OtherObject],
           dictionary_count := 1\<rparr>) = Some \<lparr>buffered = 0, finished = False\<rparr>"
    by (simp add: toy_fresh_def)
  have c1: "\<not> 15 \<le> dictionary_count
      (toy_fresh\<lparr>dictionary_refs := (replicate 15 None)[0 := Some OtherObject],
           dictionary_count := 1\<rparr>)"
    by (simp add: word_le_nat_alt)
  have f1: "GetDirectBufferAddress OtherObject = 0
      \<or> \<not> fst (BrotliEncoderAttachPreparedDictionary toy_engine
               \<lparr>buffered = 0, finished = False\<rparr> (GetDirectBufferAddress OtherObject))"
    by simp
  have h0: "handles toy_created (c0 (toy_ctx 0)) = Some toy_fresh"
    by (simp add: toy_created_def toy_ctx_def)
  have s0: "state toy_fresh = Some \<lparr>buffered = 0, finished = False\<rparr>"
    by (simp add: toy_fresh_def)
  have c0: "\<not> 15 \<le> dictionary_count toy_fresh" by (simp add: toy_fresh_def)
  have f2: "GetDirectBufferAddress toy_dictionary = 0
      \<or> \<not> fst (BrotliEncoderAttachPreparedDictionary rejecting_engine
               \<lparr>buffered = 0, finished = False\<rparr> (GetDirectBufferAddress toy_dictionary))"
    by (simp add: rejecting_engine_def)
  from attach_late_failure [OF h1 s1 c1 f1,
      of toy_allocs empty_memory "create_ctx 4" toy_created "toy_ctx 4\<lparr>c2 := 5, c3 := 22\<rparr>"
         "DirectByteBuffer 256 4" "[Attach (Some OtherObject) True]" "[False]" "[Pull]"]
    toy_create k e
  obtain m1 h1' m2 fl2 m3 where first:
    "nativeAttachDictionary toy_engine True toy_attached (toy_ctx 0) (Some OtherObject)
       = Some (m1, False)"
    "handles m1 (c0 (toy_ctx 0)) = Some h1'"
    "dictionary_count h1' = 1 + 1"
    "global_refs m1 = global_refs toy_attached @ [OtherObject]"
    "run toy_engine (c0 (toy_ctx 0)) [Pull] m1 = Some (m2, fl2)"
    "OtherObject \<in> set (global_refs m2)"
    "nativeDestroy toy_engine m2 (toy_ctx 0) = Some m3"
    "mset (global_refs m3) = mset (global_refs empty_memory)"
    "handles m3 (c0 (toy_ctx 0)) = None"
    by auto
  from attach_late_failure [OF h0 s0 c0 f2]
  obtain m4 h4 where second:
    "nativeAttachDictionary rejecting_engine True toy_created (toy_ctx 0)
       (Some toy_dictionary) = Some (m4, False)"
    "handles m4 (c0 (toy_ctx 0)) = Some h4" "dictionary_count h4 = dictionary_count toy_fresh + 1"
    by blast
  have "global_refs m3 = []" using first(8) by (simp add: empty_memory_def)
  with e first second show ?thesis
    by (simp add: toy_ctx_def toy_fresh_def toy_attached_def)
qed

text \<open>
  C10 as stated, for every call that passes the null check and the capacity check,
  fails on a call that the JVM refuses its global reference: with a dictionary and no
  dictionary attached yet, the call returns false and leaves the memory as it was, the
  count at 0 and nothing appended.
\<close>

theorem attach_refused_counterexample:
  "map_option dictionary_count (handles toy_created 64) = Some 0
   \<and> nativeAttachDictionary toy_engine False toy_created (toy_ctx 0) (Some toy_dictionary)
       = Some (toy_created, False)
   \<and> global_refs toy_created = []"
  by (simp add: nativeAttachDictionary_def toy_created_def toy_fresh_def toy_ctx_def)

text \<open>
  C8. PrepareDictionary returns null when the dictionary is null, is not a direct buffer
  or has no address, and when its capacity is 0 or at least \<open>2 ^ 30\<close>. For a direct
  buffer with an address and a capacity from 1 to \<open>2 ^ 30 - 1\<close> it calls the engine's
  prepare with the dictionary type, that capacity, that address and
  \<open>BROTLI_MAX_QUALITY\<close>, and returns a four-byte buffer over the prepared dictionary,
  or null when the engine returns none. No encoder handle is an argument of the call.
\<close>

theorem prepare_dictionary:
  "nativePrepareDictionary eng None type = None
   \<and> nativePrepareDictionary eng (Some OtherObject) type = None
   \<and> nativePrepareDictionary eng (Some (DirectByteBuffer 0 n)) type = None
   \<and> (n = 0 \<or> 2 ^ 30 \<le> sint n \<longrightarrow>
        nativePrepareDictionary eng (Some (DirectByteBuffer a n)) type = None)
   \<and> (a \<noteq> 0 \<and> 1 \<le> sint n \<and> sint n < 2 ^ 30 \<longrightarrow>
        nativePrepareDictionary eng (Some (DirectByteBuffer a n)) type =
          (if BrotliEncoderPrepareDictionary eng (ucast type) n a (BROTLI_MAX_QUALITY eng) = 0
           then None
           else Some (DirectByteBuffer
                  (BrotliEncoderPrepareDictionary eng (ucast type) n a (BROTLI_MAX_QUALITY eng))
                  4)))"
  by (auto simp add: nativePrepareDictionary_def Let_def NewDirectByteBuffer_def)

theorem prepare_dictionary_witness:
  "nativePrepareDictionary toy_engine (Some (DirectByteBuffer 512 0)) 0 = None
   \<and> nativePrepareDictionary toy_engine (Some (DirectByteBuffer 512 1073741824)) 0 = None
   \<and> nativePrepareDictionary toy_engine (Some (DirectByteBuffer 512 1073741823)) 0
       = Some (DirectByteBuffer 8192 4)
   \<and> nativePrepareDictionary toy_engine (Some (DirectByteBuffer 512 1)) 0
       = Some (DirectByteBuffer 8192 4)"
  using prepare_dictionary [of toy_engine 0 0 512]
    prepare_dictionary [of toy_engine 0 1073741824 512]
    prepare_dictionary [of toy_engine 0 1073741823 512]
    prepare_dictionary [of toy_engine 0 1 512]
  by (simp add: toy_engine_def)

end
